theory Spec2Isabelle
  imports Complex_Main
begin

section \<open>Distributed MNIST training script (main.py)\<close>

text \<open>
  The script is orchestration over a deep-learning framework. What main.py itself
  decides is embedded here as it is written: the epoch loop and its two batch loops, the
  loss accumulation, the calls made on the sampler, the optimizer and the model, the
  value \<^verbatim>\<open>main\<close> returns and the rank test in front of the checkpoint write.

  The framework objects the script calls are of two kinds.
  \<^item> Numerical kernels (forward pass and loss, automatic differentiation, the
    pseudorandom permutation, the gradient all-reduce) are parameters of the model,
    collected in the record \<open>framework\<close>: nothing is assumed about what they compute.
  \<^item> Framework classes whose control flow a property depends on are transcribed from
    the framework's documented behaviour for exactly the arguments main.py passes:
    \<^verbatim>\<open>DistributedSampler(train_dataset, shuffle=True, seed=42)\<close>,
    \<^verbatim>\<open>DataLoader(..., batch_size=batch_size)\<close>, \<^verbatim>\<open>optim.SGD(params, lr=0.01)\<close>,
    \<^verbatim>\<open>nn.Sequential\<close> and \<^verbatim>\<open>DistributedDataParallel\<close> parameter naming. Each such
    definition says so and quotes the Python it follows.

  Scalars are Python floats. Their finite values are idealised as real numbers (rounding
  is not modelled); infinities and not-a-number are kept, since the loop can meet them.
\<close>

subsection \<open>Python floats and errors\<close>

datatype pyfloat = Fin real | PInf | NInf | NaN

datatype py_error = ZeroDivisionError | ValueError | AttributeError | RuntimeError

text \<open>IEEE addition on the four kinds of value (\<^verbatim>\<open>epoch_loss += ...\<close>).\<close>

fun fl_add :: "pyfloat \<Rightarrow> pyfloat \<Rightarrow> pyfloat" where
  "fl_add (Fin a) (Fin b) = Fin (a + b)"
| "fl_add NaN _ = NaN"
| "fl_add _ NaN = NaN"
| "fl_add PInf NInf = NaN"
| "fl_add NInf PInf = NaN"
| "fl_add PInf _ = PInf"
| "fl_add _ PInf = PInf"
| "fl_add NInf _ = NInf"
| "fl_add _ NInf = NInf"

text \<open>
  \<^verbatim>\<open>batch_loss_scalar / x.shape[0]\<close>: a float divided by a non-negative int. Python
  raises ZeroDivisionError for a zero divisor, whatever the dividend.
\<close>

fun fl_quot :: "pyfloat \<Rightarrow> nat \<Rightarrow> pyfloat" where
  "fl_quot (Fin a) n = Fin (a / real n)"
| "fl_quot PInf n = PInf"
| "fl_quot NInf n = NInf"
| "fl_quot NaN n = NaN"

definition fl_div_int :: "pyfloat \<Rightarrow> nat \<Rightarrow> py_error + pyfloat" where
  "fl_div_int x n = (if n = 0 then Inl ZeroDivisionError else Inr (fl_quot x n))"

fun fl_mul :: "pyfloat \<Rightarrow> pyfloat \<Rightarrow> pyfloat" where
  "fl_mul (Fin a) (Fin b) = Fin (a * b)"
| "fl_mul NaN _ = NaN"
| "fl_mul _ NaN = NaN"
| "fl_mul (Fin a) PInf = (if a = 0 then NaN else if 0 < a then PInf else NInf)"
| "fl_mul (Fin a) NInf = (if a = 0 then NaN else if 0 < a then NInf else PInf)"
| "fl_mul PInf (Fin b) = (if b = 0 then NaN else if 0 < b then PInf else NInf)"
| "fl_mul NInf (Fin b) = (if b = 0 then NaN else if 0 < b then NInf else PInf)"
| "fl_mul PInf PInf = PInf"
| "fl_mul NInf NInf = PInf"
| "fl_mul PInf NInf = NInf"
| "fl_mul NInf PInf = NInf"

fun fl_neg :: "pyfloat \<Rightarrow> pyfloat" where
  "fl_neg (Fin a) = Fin (- a)"
| "fl_neg PInf = NInf"
| "fl_neg NInf = PInf"
| "fl_neg NaN = NaN"

definition fl_sub :: "pyfloat \<Rightarrow> pyfloat \<Rightarrow> pyfloat" where
  "fl_sub a b = fl_add a (fl_neg b)"

fun is_finite :: "pyfloat \<Rightarrow> bool" where
  "is_finite (Fin _) = True"
| "is_finite _ = False"


subsection \<open>The distributed sampler (main.py, lines 24-26 and 77)\<close>

text \<open>
  \<^verbatim>\<open>sampler = DistributedSampler(train_dataset, shuffle=True, seed=42)\<close> builds an object of
  the framework class \<^verbatim>\<open>torch.utils.data.distributed.DistributedSampler\<close>. The class is
  not part of the repository; it is transcribed here for the arguments of that call
  (\<^verbatim>\<open>shuffle=True\<close>, \<^verbatim>\<open>drop_last\<close> left at \<^verbatim>\<open>False\<close>; \<^verbatim>\<open>num_replicas\<close> and
  \<^verbatim>\<open>rank\<close> are read from the process group):
  \<^verbatim>\<open>
  def __init__(self, dataset, num_replicas=None, rank=None, shuffle=True, seed=0, drop_last=False):
      ...
      if rank >= num_replicas or rank < 0: raise ValueError(...)
      self.epoch = 0
      self.num_samples = math.ceil(len(self.dataset) / self.num_replicas)
      self.total_size = self.num_samples * self.num_replicas
  def __iter__(self):
      g = torch.Generator(); g.manual_seed(self.seed + self.epoch)
      indices = torch.randperm(len(self.dataset), generator=g).tolist()
      padding_size = self.total_size - len(indices)
      if padding_size <= len(indices):
          indices += indices[:padding_size]
      else:
          indices += (indices * math.ceil(padding_size / len(indices)))[:padding_size]
      assert len(indices) == self.total_size
      indices = indices[self.rank:self.total_size:self.num_replicas]
      assert len(indices) == self.num_samples
      return iter(indices)
  def set_epoch(self, epoch): self.epoch = epoch
  \<close>
  The generator is a parameter \<open>randperm\<close>: \<open>randperm s n\<close> stands for
  \<^verbatim>\<open>torch.randperm(n, generator=g)\<close> after \<^verbatim>\<open>g.manual_seed(s)\<close>.
\<close>

record distributed_sampler =
  dataset_len :: nat
  num_replicas :: nat
  rank :: nat
  epoch :: nat
  seed :: nat

definition ceil_div :: "nat \<Rightarrow> nat \<Rightarrow> nat" where
  "ceil_div a b = (a + b - 1) div b"

definition DistributedSampler :: "nat \<Rightarrow> nat \<Rightarrow> nat \<Rightarrow> nat \<Rightarrow> py_error + distributed_sampler" where
  "DistributedSampler n world r sd =
     (if r \<ge> world then Inl ValueError
      else Inr \<lparr>dataset_len = n, num_replicas = world, rank = r, epoch = 0, seed = sd\<rparr>)"

definition num_samples :: "distributed_sampler \<Rightarrow> nat" where
  "num_samples s = ceil_div (dataset_len s) (num_replicas s)"

definition total_size :: "distributed_sampler \<Rightarrow> nat" where
  "total_size s = num_samples s * num_replicas s"

definition set_epoch :: "distributed_sampler \<Rightarrow> nat \<Rightarrow> distributed_sampler" where
  "set_epoch s e = s\<lparr>epoch := e\<rparr>"

text \<open>
  The shuffled index list extended to \<open>total_size\<close> entries. In a group that is not
  empty \<open>total_size\<close> is at least the dataset length, and the second branch is taken
  only for a dataset that is not empty, so that its division is defined; both assertions
  of \<^verbatim>\<open>__iter__\<close> hold (lemmas \<open>length_padded_indices\<close> and \<open>length_slice_step\<close>).
\<close>

definition padded_indices :: "(nat \<Rightarrow> nat \<Rightarrow> nat list) \<Rightarrow> distributed_sampler \<Rightarrow> nat list" where
  "padded_indices randperm s =
     (let indices = randperm (seed s + epoch s) (dataset_len s);
          padding_size = total_size s - length indices
      in if padding_size \<le> length indices then indices @ take padding_size indices
         else indices @ take padding_size
                (concat (replicate (ceil_div padding_size (length indices)) indices)))"

text \<open>
  The extended slice \<^verbatim>\<open>xs[start:stop:step]\<close> for \<open>0 \<le> start\<close>, \<open>stop = len(xs)\<close> and
  \<open>0 < step\<close>: the entries at positions \<open>start\<close>, \<open>start + step\<close>, ... below the length.
\<close>

definition slice_step :: "nat \<Rightarrow> nat \<Rightarrow> 'a list \<Rightarrow> 'a list" where
  "slice_step start step xs =
     map (\<lambda>k. xs ! (start + k * step)) [0..<ceil_div (length xs - start) step]"

definition sampler_iter :: "(nat \<Rightarrow> nat \<Rightarrow> nat list) \<Rightarrow> distributed_sampler \<Rightarrow> nat list" where
  "sampler_iter randperm s = slice_step (rank s) (num_replicas s) (padded_indices randperm s)"

text \<open>
  The index sequence worker \<open>r\<close> of \<open>world\<close> iterates in epoch \<open>e\<close>: the sampler as
  main.py builds it (seed 42 is the call's constant; here a parameter) after
  \<^verbatim>\<open>set_epoch(e)\<close>.
\<close>

definition derive_partition ::
  "(nat \<Rightarrow> nat \<Rightarrow> nat list) \<Rightarrow> nat \<Rightarrow> nat \<Rightarrow> nat \<Rightarrow> nat \<Rightarrow> nat \<Rightarrow> py_error + nat list" where
  "derive_partition randperm n r world sd e =
     (case DistributedSampler n world r sd of
        Inl err \<Rightarrow> Inl err
      | Inr s \<Rightarrow> Inr (sampler_iter randperm (set_epoch s e)))"

text \<open>
  A concrete generator for evaluating the definitions on small inputs: it rotates the
  identity by the seed. It is a permutation for every seed, and makes no claim to be the
  framework's.
\<close>

definition rot_perm :: "nat \<Rightarrow> nat \<Rightarrow> nat list" where
  "rot_perm s n = rotate s [0..<n]"

subsection \<open>Datasets and data loaders (create_data_loaders, lines 13-45)\<close>

text \<open>
  A dataset is the external collaborator \<^verbatim>\<open>datasets.MNIST\<close>: a length and an item for
  each index. A batch is the list of the items drawn for it, so \<^verbatim>\<open>x.shape[0]\<close> is the
  length of the batch.
\<close>

record 'x dataset =
  ds_len :: nat
  ds_item :: "nat \<Rightarrow> 'x"



record 'x train_loader =
  tl_dataset :: "'x dataset"
  tl_batch_size :: nat
  tl_sampler :: distributed_sampler




subsection \<open>Tensors, modules and parameter names (create_model, lines 48-58)\<close>

text \<open>A tensor is the list of its entries; arithmetic on tensors is entrywise.\<close>

type_synonym tensor = "pyfloat list"

type_synonym gradients = "string \<Rightarrow> tensor"

definition t_add :: "tensor \<Rightarrow> tensor \<Rightarrow> tensor" where
  "t_add a b = map2 fl_add a b"

definition t_scale :: "real \<Rightarrow> tensor \<Rightarrow> tensor" where
  "t_scale c a = map (fl_mul (Fin c)) a"

datatype layer = Linear nat nat bool | ReLU | Dropout real

text \<open>
  A module is the \<^verbatim>\<open>nn.Sequential\<close> main.py builds, holding its layers and its parameter
  tensors by name, or a \<^verbatim>\<open>DistributedDataParallel\<close> wrapper around a module (the
  wrapper keeps the wrapped module in its attribute \<^verbatim>\<open>module\<close> and shares its tensors).
\<close>

datatype nn_module =
    Sequential "layer list" "(string \<times> tensor) list"
  | DistributedDataParallel nn_module

definition digit :: "nat \<Rightarrow> char" where
  "digit d = ''0123456789'' ! d"

function str_nat :: "nat \<Rightarrow> string" where
  "str_nat n = (if n < 10 then [digit n] else str_nat (n div 10) @ [digit (n mod 10)])"
  by pat_completeness auto
termination
  by (relation "measure id") auto

declare str_nat.simps [simp del]

text \<open>A linear layer registers \<open>weight\<close> and, unless \<^verbatim>\<open>bias=False\<close>, \<open>bias\<close>.\<close>

fun layer_param_names :: "layer \<Rightarrow> string list" where
  "layer_param_names (Linear _ _ has_bias) = (if has_bias then [''weight'', ''bias''] else [''weight''])"
| "layer_param_names ReLU = []"
| "layer_param_names (Dropout _) = []"

text \<open>\<^verbatim>\<open>nn.Sequential\<close> names the parameters of its \<open>i\<close>-th layer \<open>i.name\<close>.\<close>

definition param_names :: "layer list \<Rightarrow> string list" where
  "param_names ls =
     concat (map2 (\<lambda>i l. map (\<lambda>nm. str_nat i @ ''.'' @ nm) (layer_param_names l)) [0..<length ls] ls)"

definition architecture :: "layer list" where
  "architecture =
     [Linear (28 * 28) 128 True, ReLU, Dropout (2 / 10), Linear 128 128 True, ReLU,
      Linear 128 10 False]"

text \<open>
  \<^verbatim>\<open>create_model()\<close>; \<open>init\<close> is the framework's random initialisation of each
  parameter tensor.
\<close>

definition create_model :: "(string \<Rightarrow> tensor) \<Rightarrow> nn_module" where
  "create_model init = Sequential architecture (map (\<lambda>k. (k, init k)) (param_names architecture))"


text \<open>The parameter tensors under the names of the innermost module.\<close>

fun named_tensors :: "nn_module \<Rightarrow> (string \<times> tensor) list" where
  "named_tensors (Sequential ls ps) = ps"
| "named_tensors (DistributedDataParallel m) = named_tensors m"

fun map_tensors :: "(string \<Rightarrow> tensor \<Rightarrow> tensor) \<Rightarrow> nn_module \<Rightarrow> nn_module" where
  "map_tensors f (Sequential ls ps) = Sequential ls (map (\<lambda>(k, t). (k, f k t)) ps)"
| "map_tensors f (DistributedDataParallel m) = DistributedDataParallel (map_tensors f m)"



subsection \<open>The optimizer (line 71)\<close>

text \<open>
  \<^verbatim>\<open>optim.SGD(model.parameters(), lr=0.01)\<close>. The framework class has the hyperparameters
  \<^verbatim>\<open>lr, momentum=0, dampening=0, weight_decay=0, nesterov=False\<close> and one optional
  momentum buffer per parameter; its step is, for each parameter with a gradient,
  \<^verbatim>\<open>
  if weight_decay != 0: grad = grad.add(param, alpha=weight_decay)
  if momentum != 0:
      if buf is None: buf = clone(grad)
      else: buf.mul_(momentum).add_(grad, alpha=1 - dampening)
      if nesterov: grad = grad.add(buf, alpha=momentum)
      else: grad = buf
  param.add_(grad, alpha=-lr)
  \<close>
\<close>

record sgd =
  lr :: real
  momentum :: real
  dampening :: real
  weight_decay :: real
  nesterov :: bool
  momentum_buffer :: "string \<Rightarrow> tensor option"

definition SGD :: "real \<Rightarrow> sgd" where
  "SGD learning_rate =
     \<lparr>lr = learning_rate, momentum = 0, dampening = 0, weight_decay = 0, nesterov = False,
      momentum_buffer = (\<lambda>k. None)\<rparr>"

definition sgd_buffer :: "sgd \<Rightarrow> tensor \<Rightarrow> tensor \<Rightarrow> tensor option \<Rightarrow> tensor option" where
  "sgd_buffer opt param grad buf =
     (let g = (if weight_decay opt \<noteq> 0 then t_add grad (t_scale (weight_decay opt) param) else grad)
      in if momentum opt \<noteq> 0
         then (case buf of None \<Rightarrow> Some g
               | Some b \<Rightarrow> Some (t_add (t_scale (momentum opt) b) (t_scale (1 - dampening opt) g)))
         else buf)"

definition sgd_param :: "sgd \<Rightarrow> tensor \<Rightarrow> tensor \<Rightarrow> tensor option \<Rightarrow> tensor" where
  "sgd_param opt param grad buf =
     (let g = (if weight_decay opt \<noteq> 0 then t_add grad (t_scale (weight_decay opt) param) else grad);
          d = (if momentum opt \<noteq> 0
               then (case sgd_buffer opt param grad buf of
                       None \<Rightarrow> g
                     | Some b \<Rightarrow> if nesterov opt then t_add g (t_scale (momentum opt) b) else b)
               else g)
      in t_add param (t_scale (- lr opt) d))"

subsection \<open>The framework's numerical kernels\<close>

text \<open>
  \<^item> \<open>fw_loss m training x\<close>: \<^verbatim>\<open>loss(model(x), y).item()\<close> for the batch \<open>x\<close>, the
    model in train or eval mode;
  \<^item> \<open>fw_local_grad m training x\<close>: the gradient automatic differentiation computes on
    this process for the batch;
  \<^item> \<open>fw_sync g\<close>: what the distributed wrapper leaves in \<^verbatim>\<open>.grad\<close> when
    \<^verbatim>\<open>backward()\<close> returns, given the local gradient \<open>g\<close>: the average over the group;
  \<^item> \<open>fw_rank0_init k\<close>: the value of parameter \<open>k\<close> on rank 0, which the wrapper's
    constructor broadcasts to every process;
  \<^item> \<open>fw_randperm\<close>: the seeded generator of the sampler;
  \<^item> \<open>fw_test_order i\<close>: the order in which the unseeded \<^verbatim>\<open>shuffle=True\<close> test loader
    draws the test indices during epoch \<open>i\<close>.
\<close>

record 'x framework =
  fw_loss :: "nn_module \<Rightarrow> bool \<Rightarrow> 'x list \<Rightarrow> pyfloat"
  fw_local_grad :: "nn_module \<Rightarrow> bool \<Rightarrow> 'x list \<Rightarrow> gradients"
  fw_sync :: "gradients \<Rightarrow> gradients"
  fw_rank0_init :: "string \<Rightarrow> tensor"
  fw_randperm :: "nat \<Rightarrow> nat \<Rightarrow> nat list"
  fw_test_order :: "nat \<Rightarrow> nat list"

subsection \<open>The training loop (main, lines 61-114)\<close>

text \<open>
  The state of one worker process inside \<^verbatim>\<open>main\<close>: the wrapped model, its mode, the
  gradients held in \<^verbatim>\<open>.grad\<close> (\<open>None\<close> when cleared), the optimizer, the train loader's
  sampler, the lines printed and the batch losses shown on the progress bar
  (\<^verbatim>\<open>pbar.set_description(f'training batch_loss={batch_loss_scalar:.4f}')\<close> and its
  validation twin). \<open>n_steps\<close> is instrumentation: it counts the calls of
  \<^verbatim>\<open>optimizer.step()\<close>.
\<close>

datatype phase = Training | Validation

record train_state =
  model :: nn_module
  training :: bool
  grads :: "gradients option"
  optimizer :: sgd
  n_steps :: nat
  sampler :: distributed_sampler
  stdout :: "(nat \<times> pyfloat \<times> pyfloat) list"
  progress :: "(phase \<times> pyfloat) list"

text \<open>
  \<^verbatim>\<open>optimizer.step()\<close>: every parameter that has a gradient is updated by \<open>sgd_param\<close>
  and its momentum buffer by \<open>sgd_buffer\<close>.
\<close>

definition optimizer_step :: "train_state \<Rightarrow> train_state" where
  "optimizer_step s =
     (case grads s of
        None \<Rightarrow> s\<lparr>n_steps := n_steps s + 1\<rparr>
      | Some g \<Rightarrow>
          let opt = optimizer s;
              old = named_tensors (model s)
          in s\<lparr>model := map_tensors (\<lambda>k t. sgd_param opt t (g k) (momentum_buffer opt k)) (model s),
               optimizer := opt\<lparr>momentum_buffer :=
                 (\<lambda>k. case map_of old k of
                         None \<Rightarrow> momentum_buffer opt k
                       | Some t \<Rightarrow> sgd_buffer opt t (g k) (momentum_buffer opt k))\<rparr>,
               n_steps := n_steps s + 1\<rparr>)"

text \<open>
  One iteration of the training batch loop (lines 82-94). \<^verbatim>\<open>x.view(x.shape[0], -1)\<close>
  is refused by the framework for a batch with no rows (RuntimeError: the free dimension
  is ambiguous); the loaders never yield one.
  \<^verbatim>\<open>
  x = x.view(x.shape[0], -1)
  optimizer.zero_grad()
  y_hat = model(x)
  batch_loss = loss(y_hat, y)
  batch_loss.backward()
  optimizer.step()
  batch_loss_scalar = batch_loss.item()
  epoch_loss += batch_loss_scalar / x.shape[0]
  pbar.set_description(f'training batch_loss={batch_loss_scalar:.4f}')
  \<close>
\<close>

definition train_batch ::
  "'x framework \<Rightarrow> train_state \<times> pyfloat \<Rightarrow> 'x list \<Rightarrow> py_error + train_state \<times> pyfloat" where
  "train_batch fw acc x =
     (let s = fst acc; epoch_loss = snd acc in
      if length x = 0 then Inl RuntimeError
      else
        let s1 = s\<lparr>grads := None\<rparr>;
            batch_loss = fw_loss fw (model s1) (training s1) x;
            s2 = s1\<lparr>grads := Some (fw_sync fw (fw_local_grad fw (model s1) (training s1) x))\<rparr>;
            s3 = optimizer_step s2;
            batch_loss_scalar = batch_loss
        in case fl_div_int batch_loss_scalar (length x) of
             Inl err \<Rightarrow> Inl err
           | Inr q \<Rightarrow>
               Inr (s3\<lparr>progress := progress s3 @ [(Training, batch_loss_scalar)]\<rparr>,
                    fl_add epoch_loss q))"

fun train_pass ::
  "'x framework \<Rightarrow> train_state \<times> pyfloat \<Rightarrow> 'x list list \<Rightarrow> py_error + train_state \<times> pyfloat" where
  "train_pass fw acc [] = Inr acc"
| "train_pass fw acc (x # xs) =
     (case train_batch fw acc x of Inl err \<Rightarrow> Inl err | Inr acc' \<Rightarrow> train_pass fw acc' xs)"

text \<open>
  One iteration of the validation batch loop (lines 101-110), inside
  \<^verbatim>\<open>torch.no_grad()\<close>:
  \<^verbatim>\<open>
  x = x.view(x.shape[0], -1)
  y_hat = model(x)
  batch_loss = loss(y_hat, y)
  batch_loss_scalar = batch_loss.item()
  val_loss += batch_loss_scalar / x.shape[0]
  pbar.set_description(f'validation batch_loss={batch_loss_scalar:.4f}')
  \<close>
\<close>

definition val_batch ::
  "'x framework \<Rightarrow> train_state \<times> pyfloat \<Rightarrow> 'x list \<Rightarrow> py_error + train_state \<times> pyfloat" where
  "val_batch fw acc x =
     (let s = fst acc; val_loss = snd acc in
      if length x = 0 then Inl RuntimeError
      else
        let batch_loss = fw_loss fw (model s) (training s) x;
            batch_loss_scalar = batch_loss
        in case fl_div_int batch_loss_scalar (length x) of
             Inl err \<Rightarrow> Inl err
           | Inr q \<Rightarrow>
               Inr (s\<lparr>progress := progress s @ [(Validation, batch_loss_scalar)]\<rparr>,
                    fl_add val_loss q))"






text \<open>
  The state when the loop starts (lines 66-72): the model wrapped in
  \<^verbatim>\<open>DistributedDataParallel\<close>, whose constructor replaces every parameter value by
  rank 0's, and the optimizer \<^verbatim>\<open>optim.SGD(model.parameters(), lr=0.01)\<close>. A fresh
  module is in train mode and has no gradients.
\<close>

definition initial_state :: "'x framework \<Rightarrow> nn_module \<Rightarrow> 'x train_loader \<Rightarrow> train_state" where
  "initial_state fw m trl =
     \<lparr>model = DistributedDataParallel (map_tensors (\<lambda>k t. fw_rank0_init fw k) m),
      training = True, grads = None, optimizer = SGD (1 / 100), n_steps = 0,
      sampler = tl_sampler trl, stdout = [], progress = []\<rparr>"


subsection \<open>The script (lines 117-150)\<close>



subsection \<open>A group of workers in lock step\<close>

text \<open>
  The gradient all-reduce is a barrier: batch \<open>t\<close> of every worker is processed before
  any worker starts batch \<open>t + 1\<close>. A group of workers is therefore simulated one batch
  at a time. Every worker runs \<open>train_batch\<close>; what the wrapper leaves in its
  \<^verbatim>\<open>.grad\<close> is the all-reduce of the local gradients of all workers, the same value on
  each. The all-reduce itself (\<open>allreduce\<close>, the average) is a parameter.
\<close>

text \<open>All results of a list, or the first error.\<close>

fun sequence_results :: "('e + 'a) list \<Rightarrow> 'e + 'a list" where
  "sequence_results [] = Inr []"
| "sequence_results (Inl err # rs) = Inl err"
| "sequence_results (Inr a # rs) =
     (case sequence_results rs of Inl err \<Rightarrow> Inl err | Inr as \<Rightarrow> Inr (a # as))"

text \<open>
  One step of the group: \<open>xs\<close> holds the batch of each worker. When the workers do not
  all have a batch, those that have one wait at the all-reduce for ever: the step does
  not return (\<open>None\<close>). An error of one worker is the outcome of the group.
\<close>

definition group_train_batch ::
  "'x framework \<Rightarrow> (gradients list \<Rightarrow> gradients) \<Rightarrow> (train_state \<times> pyfloat) list \<Rightarrow> 'x list list
     \<Rightarrow> (py_error + (train_state \<times> pyfloat) list) option" where
  "group_train_batch fw allreduce accs xs =
     (if length xs \<noteq> length accs then None
      else
        let local = map2 (\<lambda>acc x. fw_local_grad fw (model (fst acc)) (training (fst acc)) x) accs xs;
            avg = allreduce local
        in Some (sequence_results
                   (map2 (\<lambda>acc x. train_batch (fw\<lparr>fw_sync := (\<lambda>g. avg)\<rparr>) acc x) accs xs)))"

fun group_train_pass ::
  "'x framework \<Rightarrow> (gradients list \<Rightarrow> gradients) \<Rightarrow> (train_state \<times> pyfloat) list \<Rightarrow> 'x list list list
     \<Rightarrow> (py_error + (train_state \<times> pyfloat) list) option" where
  "group_train_pass fw allreduce accs [] = Some (Inr accs)"
| "group_train_pass fw allreduce accs (xs # rest) =
     (case group_train_batch fw allreduce accs xs of
        None \<Rightarrow> None
      | Some (Inl err) \<Rightarrow> Some (Inl err)
      | Some (Inr accs') \<Rightarrow> group_train_pass fw allreduce accs' rest)"

text \<open>The replicas agree: same model, same optimizer state, same number of steps.\<close>

definition agree :: "(train_state \<times> pyfloat) list \<Rightarrow> bool" where
  "agree accs = (\<forall>a\<in>set accs. \<forall>b\<in>set accs.
      model (fst a) = model (fst b) \<and> optimizer (fst a) = optimizer (fst b)
      \<and> n_steps (fst a) = n_steps (fst b))"

text \<open>
  The group when the loop starts: worker \<open>r\<close> built its own model \<open>ms ! r\<close> (its own
  random initialisation), and the wrapper's constructor broadcast rank 0's values.
\<close>

definition rank0_values :: "nn_module list \<Rightarrow> string \<Rightarrow> tensor" where
  "rank0_values ms k =
     (case ms of [] \<Rightarrow> []
      | m # rest \<Rightarrow> (case map_of (named_tensors m) k of None \<Rightarrow> [] | Some t \<Rightarrow> t))"

definition group_initial ::
  "'x framework \<Rightarrow> nn_module list \<Rightarrow> 'x train_loader list \<Rightarrow> train_state list" where
  "group_initial fw ms loaders =
     map2 (\<lambda>m trl. initial_state (fw\<lparr>fw_rank0_init := rank0_values ms\<rparr>) m trl)
       ms loaders"

subsection \<open>Concrete inputs\<close>

text \<open>
  Small concrete frameworks, models and states on which the definitions are evaluated.
  The items of the toy datasets are natural numbers. \<open>toy_framework\<close> reports the sum
  of a batch as its loss and a constant gradient; \<open>nan_framework\<close> reports a loss and a
  gradient that are not a number; \<open>flat_framework\<close> reports the loss 3 on every batch.
\<close>

definition toy_framework :: "nat framework" where
  "toy_framework =
     \<lparr>fw_loss = (\<lambda>m t x. Fin (real (sum_list x))),
      fw_local_grad = (\<lambda>m t x k. [Fin 2]),
      fw_sync = (\<lambda>g. g),
      fw_rank0_init = (\<lambda>k. [Fin 1]),
      fw_randperm = rot_perm,
      fw_test_order = (\<lambda>i. [0, 1])\<rparr>"

definition nan_framework :: "nat framework" where
  "nan_framework =
     toy_framework\<lparr>fw_loss := (\<lambda>m t x. NaN), fw_local_grad := (\<lambda>m t x k. [NaN])\<rparr>"


definition toy_dataset :: "nat \<Rightarrow> nat dataset" where
  "toy_dataset n = \<lparr>ds_len = n, ds_item = (\<lambda>i. 10 + i)\<rparr>"


definition toy_model :: nn_module where
  "toy_model = Sequential [Linear 1 1 False] [(''0.weight'', [Fin 1])]"

definition toy_train_loader :: "nat train_loader" where
  "toy_train_loader =
     \<lparr>tl_dataset = toy_dataset 4, tl_batch_size = 2,
      tl_sampler = \<lparr>dataset_len = 4, num_replicas = 2, rank = 0, epoch = 0, seed = 42\<rparr>\<rparr>"


definition toy_state :: train_state where
  "toy_state =
     \<lparr>model = DistributedDataParallel toy_model, training = True, grads = None,
      optimizer = SGD (1 / 100), n_steps = 0,
      sampler = \<lparr>dataset_len = 4, num_replicas = 2, rank = 0, epoch = 0, seed = 42\<rparr>,
      stdout = [], progress = []\<rparr>"

text \<open>
  What an observer sees of a batch loop: the error, or the number of optimizer steps
  taken so far, the batch losses shown on the progress bar and the accumulated loss.
\<close>

definition pass_summary ::
  "py_error + train_state \<times> pyfloat \<Rightarrow> py_error + nat \<times> (phase \<times> pyfloat) list \<times> pyfloat" where
  "pass_summary r =
     (case r of Inl err \<Rightarrow> Inl err | Inr (s, e) \<Rightarrow> Inr (n_steps s, progress s, e))"

text \<open>The names and tensors a pass leaves in the model, or the error.\<close>

definition pass_tensors :: "py_error + train_state \<times> pyfloat \<Rightarrow> py_error + (string \<times> tensor) list" where
  "pass_tensors r = (case r of Inl err \<Rightarrow> Inl err | Inr (s, e) \<Rightarrow> Inr (named_tensors (model s)))"

section \<open>Properties\<close>

subsection \<open>The sampler's partitions\<close>

lemma ceil_div_mult_ge: "0 < b \<Longrightarrow> a \<le> ceil_div a b * b"
proof -
  assume b: "0 < b"
  have "a + b - 1 = (a + b - 1) div b * b + (a + b - 1) mod b" by simp
  moreover have "(a + b - 1) mod b < b" using b by simp
  ultimately show ?thesis unfolding ceil_div_def by linarith
qed

lemma ceil_div_stride: "r < w \<Longrightarrow> ceil_div (m * w - r) w = m"
proof (cases m)
  case 0
  assume "r < w" then show ?thesis using 0 by (simp add: ceil_div_def)
next
  case (Suc k)
  assume r: "r < w"
  define q where "q = w - r - 1"
  have q: "q < w" using r by (simp add: q_def)
  have "r \<le> Suc k * w" using r by (simp add: trans_le_add1)
  then have e: "Suc k * w - r + w - 1 = q + Suc k * w" using r by (simp add: q_def)
  have "w \<noteq> 0" using q by auto
  then have "(q + Suc k * w) div w = Suc k + q div w"
    by (rule div_mult_self1)
  then have "(q + Suc k * w) div w = Suc k" using q by simp
  then show ?thesis using Suc e by (simp add: ceil_div_def)
qed

lemma length_slice_step: "r < w \<Longrightarrow> length xs = m * w \<Longrightarrow> length (slice_step r w xs) = m"
  by (simp add: slice_step_def ceil_div_stride)

lemma set_slice_step:
  assumes "r < w" "length xs = m * w"
  shows "set (slice_step r w xs) = {xs ! (r + k * w) | k. k < m}"
  using assms by (auto simp: slice_step_def ceil_div_stride)

lemma stride_pos_less: "r < w \<Longrightarrow> k < m \<Longrightarrow> r + k * w < m * (w::nat)"
proof -
  assume r: "r < w" and k: "k < m"
  have "r + k * w < Suc k * w" using r by simp
  also have "\<dots> \<le> m * w" using k by (simp only: mult_le_mono1 Suc_leI)
  finally show ?thesis .
qed

lemma Union_slice_step:
  assumes w: "0 < w" and len: "length xs = m * w"
  shows "(\<Union>r\<in>{0..<w}. set (slice_step r w xs)) = set xs"
proof
  show "(\<Union>r\<in>{0..<w}. set (slice_step r w xs)) \<subseteq> set xs"
    using len by (auto simp: set_slice_step stride_pos_less)
next
  show "set xs \<subseteq> (\<Union>r\<in>{0..<w}. set (slice_step r w xs))"
  proof
    fix x assume "x \<in> set xs"
    then obtain j where j: "j < length xs" "xs ! j = x" by (auto simp: in_set_conv_nth)
    have jm: "j mod w < w" using w by simp
    have "j div w < m" using j(1) len w by (simp add: less_mult_imp_div_less)
    moreover have "j = j mod w + j div w * w" by simp
    ultimately have "\<exists>k. x = xs ! (j mod w + k * w) \<and> k < m"
      using j(2) by metis
    then have "x \<in> set (slice_step (j mod w) w xs)"
      using jm len by (simp add: set_slice_step)
    then show "x \<in> (\<Union>r\<in>{0..<w}. set (slice_step r w xs))" using jm by auto
  qed
qed

lemma slice_step_disjoint:
  assumes d: "distinct xs" and len: "length xs = m * w" and r: "r < w" "r' < w" "r \<noteq> r'"
  shows "set (slice_step r w xs) \<inter> set (slice_step r' w xs) = {}"
proof (rule ccontr)
  assume "set (slice_step r w xs) \<inter> set (slice_step r' w xs) \<noteq> {}"
  then obtain k k' where k: "k < m" "k' < m" and eq: "xs ! (r + k * w) = xs ! (r' + k' * w)"
    using r len by (auto simp: set_slice_step)
  have "r + k * w < length xs" "r' + k' * w < length xs"
    using k r len by (simp_all add: stride_pos_less)
  with d eq have "r + k * w = r' + k' * w" by (simp add: nth_eq_iff_index_eq)
  then have "(r + k * w) mod w = (r' + k' * w) mod w" by simp
  then show False using r by simp
qed

lemma distinct_slice_step:
  assumes d: "distinct xs" and len: "length xs = m * w" and r: "r < w"
  shows "distinct (slice_step r w xs)"
proof -
  have "inj_on (\<lambda>k. xs ! (r + k * w)) {0..<m}"
  proof (rule inj_onI)
    fix k k' assume k: "k \<in> {0..<m}" "k' \<in> {0..<m}" and eq: "xs ! (r + k * w) = xs ! (r + k' * w)"
    have "r + k * w < length xs" "r + k' * w < length xs"
      using k r len by (simp_all add: stride_pos_less)
    with d eq have "r + k * w = r + k' * w" by (simp add: nth_eq_iff_index_eq)
    then show "k = k'" using r by simp
  qed
  then show ?thesis using r len by (simp add: slice_step_def ceil_div_stride distinct_map)
qed

lemma length_concat_replicate: "length (concat (replicate k xs)) = k * length xs"
  by (induction k) simp_all

lemma set_concat_replicate_subset: "set (concat (replicate k xs)) \<subseteq> set xs"
  by (induction k) auto

lemma ceil_div_zero: "0 < b \<Longrightarrow> ceil_div 0 b = 0"
  by (simp add: ceil_div_def)

lemma ceil_div_dvd: "0 < b \<Longrightarrow> b dvd a \<Longrightarrow> ceil_div a b * b = a"
proof -
  assume b: "0 < b" and d: "b dvd a"
  then obtain c where c: "a = c * b" by (auto simp: dvd_def)
  have "ceil_div (c * b - 0) b = c" using b by (rule ceil_div_stride)
  then show ?thesis using c by simp
qed

lemma length_padded_indices:
  assumes w: "0 < num_replicas s"
    and len: "length (randperm (seed s + epoch s) (dataset_len s)) = dataset_len s"
  shows "length (padded_indices randperm s) = total_size s"
proof -
  let ?n = "dataset_len s"
  let ?pad = "total_size s - ?n"
  have ge: "?n \<le> total_size s"
    using w by (simp add: total_size_def num_samples_def ceil_div_mult_ge)
  show ?thesis
  proof (cases "?pad \<le> ?n")
    case True
    then show ?thesis using ge len by (simp add: padded_indices_def Let_def)
  next
    case False
    then have pos: "0 < ?n"
      using w by (cases "?n = 0") (simp_all add: total_size_def num_samples_def ceil_div_zero)
    have "?pad \<le> ceil_div ?pad ?n * ?n" using pos by (rule ceil_div_mult_ge)
    then show ?thesis
      using False ge len by (simp add: padded_indices_def Let_def length_concat_replicate)
  qed
qed

lemma set_padded_indices:
  "set (padded_indices randperm s) = set (randperm (seed s + epoch s) (dataset_len s))"
proof -
  have "set (take k (concat (replicate j xs))) \<subseteq> set xs" for k j and xs :: "nat list"
    using set_take_subset set_concat_replicate_subset by fast
  moreover have "set (take k xs) \<subseteq> set xs" for k and xs :: "nat list"
    by (rule set_take_subset)
  ultimately show ?thesis
    unfolding padded_indices_def Let_def by (simp add: Un_absorb2)
qed

lemma padded_indices_dvd:
  assumes w: "0 < num_replicas s" and d: "num_replicas s dvd dataset_len s"
    and len: "length (randperm (seed s + epoch s) (dataset_len s)) = dataset_len s"
  shows "padded_indices randperm s = randperm (seed s + epoch s) (dataset_len s)"
  using assms by (simp add: padded_indices_def Let_def total_size_def num_samples_def ceil_div_dvd)

lemma derive_partition_Inr:
  "r < world \<Longrightarrow> derive_partition randperm n r world sd e =
     Inr (sampler_iter randperm \<lparr>dataset_len = n, num_replicas = world, rank = r, epoch = e, seed = sd\<rparr>)"
  by (simp add: derive_partition_def DistributedSampler_def set_epoch_def)

text \<open>
  Claim C1, as amended. For every dataset size \<open>n\<close>, group size \<open>world > 0\<close>, seed and
  epoch, if the generator returns a permutation of \<open>[0, n)\<close>: every rank \<open>r < world\<close>
  derives a partition; all partitions have the same length, \<open>n\<close> divided by \<open>world\<close>
  and rounded up; the union of their index sets is exactly \<open>[0, n)\<close>; and when \<open>world\<close>
  divides \<open>n\<close> (no padding), every partition is free of repetitions and the partitions
  are pairwise disjoint.
\<close>

theorem partition_cover_equal_length:
  assumes len: "length (randperm (sd + e) n) = n"
    and perm: "set (randperm (sd + e) n) = {0..<n}"
    and w: "0 < world"
  shows "\<exists>ps. length ps = world
    \<and> (\<forall>r<world. derive_partition randperm n r world sd e = Inr (ps ! r))
    \<and> (\<forall>r<world. length (ps ! r) = ceil_div n world)
    \<and> (\<Union>r\<in>{0..<world}. set (ps ! r)) = {0..<n}
    \<and> (world dvd n \<longrightarrow>
         (\<forall>r<world. distinct (ps ! r)
            \<and> (\<forall>r'<world. r \<noteq> r' \<longrightarrow> set (ps ! r) \<inter> set (ps ! r') = {})))"
proof -
  define S where "S r = \<lparr>dataset_len = n, num_replicas = world, rank = r, epoch = e, seed = sd\<rparr>" for r
  define xs where "xs = padded_indices randperm (S 0)"
  define ps where "ps = map (\<lambda>r. sampler_iter randperm (S r)) [0..<world]"
  have pad_eq: "padded_indices randperm (S r) = xs" for r
    by (simp add: xs_def S_def padded_indices_def total_size_def num_samples_def)
  have it: "sampler_iter randperm (S r) = slice_step r world xs" for r
    unfolding sampler_iter_def pad_eq by (simp add: S_def)
  have lxs: "length xs = ceil_div n world * world"
    unfolding xs_def using length_padded_indices [of "S 0" randperm] w len
    by (simp add: S_def total_size_def num_samples_def)
  have sxs: "set xs = {0..<n}"
    unfolding xs_def using set_padded_indices [of randperm "S 0"] perm by (simp add: S_def)
  have nth: "ps ! r = slice_step r world xs" if "r < world" for r
    using that by (simp add: ps_def it)
  have 1: "length ps = world" by (simp add: ps_def)
  have 2: "\<forall>r<world. derive_partition randperm n r world sd e = Inr (ps ! r)"
    using it by (simp add: derive_partition_Inr nth S_def)
  have 3: "\<forall>r<world. length (ps ! r) = ceil_div n world"
    using lxs by (simp add: nth length_slice_step)
  have "(\<Union>r\<in>{0..<world}. set (ps ! r)) = (\<Union>r\<in>{0..<world}. set (slice_step r world xs))"
    by (simp add: nth)
  then have 4: "(\<Union>r\<in>{0..<world}. set (ps ! r)) = {0..<n}"
    using Union_slice_step [OF w lxs] sxs by simp
  have 5: "\<forall>r<world. distinct (ps ! r)
            \<and> (\<forall>r'<world. r \<noteq> r' \<longrightarrow> set (ps ! r) \<inter> set (ps ! r') = {})" if d: "world dvd n"
  proof -
    have "xs = randperm (sd + e) n"
      unfolding xs_def using padded_indices_dvd [of "S 0" randperm] w d len by (simp add: S_def)
    then have "card (set xs) = length xs" using len perm by simp
    then have dx: "distinct xs" by (rule card_distinct)
    show ?thesis
      using distinct_slice_step [OF dx lxs] slice_step_disjoint [OF dx lxs]
      by (simp add: nth)
  qed
  from 1 2 3 4 5 show ?thesis by blast
qed

theorem partition_cover_equal_length_witness:
  "length (rot_perm (42 + 0) 4) = 4 \<and> set (rot_perm (42 + 0) 4) = {0..<4} \<and> (0::nat) < 2
   \<and> (\<exists>ps. length ps = 2
      \<and> derive_partition rot_perm 4 0 2 42 0 = Inr (ps ! 0)
      \<and> derive_partition rot_perm 4 1 2 42 0 = Inr (ps ! 1)
      \<and> length (ps ! 0) = 2 \<and> length (ps ! 1) = 2
      \<and> set (ps ! 0) \<union> set (ps ! 1) = {0, 1, 2, 3}
      \<and> set (ps ! 0) \<inter> set (ps ! 1) = {})"
proof -
  have h1: "length (rot_perm (42 + 0) 4) = 4" by (simp add: rot_perm_def)
  have h2: "set (rot_perm (42 + 0) 4) = {0..<4}" by (simp add: rot_perm_def)
  have h3: "(0::nat) < 2" by simp
  have d: "(2::nat) dvd 4" by simp
  have c: "ceil_div 4 2 = 2" by (simp add: ceil_div_def)
  have u: "{0..<2::nat} = {0, 1}" by auto
  have s4: "{0..<4::nat} = {0, 1, 2, 3}" by auto
  from partition_cover_equal_length [of rot_perm 42 0 4 2, OF h1 h2 h3]
  obtain ps where ps: "length ps = 2"
    "\<forall>r<2. derive_partition rot_perm 4 r 2 42 0 = Inr (ps ! r)"
    "\<forall>r<2. length (ps ! r) = ceil_div 4 2"
    "(\<Union>r\<in>{0..<2}. set (ps ! r)) = {0..<4}"
    "2 dvd (4::nat) \<longrightarrow> (\<forall>r<2. distinct (ps ! r)
        \<and> (\<forall>r'<2. r \<noteq> r' \<longrightarrow> set (ps ! r) \<inter> set (ps ! r') = {}))"
    by blast
  have a: "derive_partition rot_perm 4 0 2 42 0 = Inr (ps ! 0)"
    and b: "derive_partition rot_perm 4 1 2 42 0 = Inr (ps ! 1)"
    using ps(2) by simp_all
  have l: "length (ps ! 0) = 2" "length (ps ! 1) = 2" using ps(3) c by simp_all
  have un: "set (ps ! 0) \<union> set (ps ! 1) = {0, 1, 2, 3}" using ps(4) u s4 by simp
  have dj: "set (ps ! 0) \<inter> set (ps ! 1) = {}" using ps(5) d by simp
  show ?thesis using h1 h2 h3 ps(1) a b l un dj by blast
qed

text \<open>
  Claim C1 as stated fails where padding is needed: with three indices and two workers
  the padded sequence repeats its first index, and both workers receive index 0.
\<close>

theorem partition_disjoint_counterexample:
  "derive_partition rot_perm 3 0 2 42 0 = Inr [0, 2]
   \<and> derive_partition rot_perm 3 1 2 42 0 = Inr [1, 0]
   \<and> set [0, 2 :: nat] \<inter> set [1, 0] \<noteq> {}"
  by code_simp

subsection \<open>The batch loops\<close>

lemmas toy_eval = train_batch_def val_batch_def toy_framework_def nan_framework_def toy_state_def
  toy_model_def Let_def fl_div_int_def optimizer_step_def SGD_def sgd_param_def sgd_buffer_def
  t_add_def t_scale_def pass_summary_def pass_tensors_def

lemma fl_div_int_pos: "0 < n \<Longrightarrow> fl_div_int x n = Inr (fl_quot x n)"
  by (simp add: fl_div_int_def)

lemma progress_optimizer_step: "progress (optimizer_step s) = progress s"
  by (simp add: optimizer_step_def Let_def split: option.splits)

lemma n_steps_optimizer_step: "n_steps (optimizer_step s) = n_steps s + 1"
  by (simp add: optimizer_step_def Let_def split: option.splits)

lemma train_batch_nonempty:
  assumes "x \<noteq> []"
  shows "train_batch fw (s, e) x =
    Inr ((optimizer_step (s\<lparr>grads := Some (fw_sync fw (fw_local_grad fw (model s) (training s) x))\<rparr>))
           \<lparr>progress := progress s @ [(Training, fw_loss fw (model s) (training s) x)]\<rparr>,
         fl_add e (fl_quot (fw_loss fw (model s) (training s) x) (length x)))"
  using assms by (simp add: train_batch_def Let_def fl_div_int_pos progress_optimizer_step)

lemma train_pass_general:
  assumes "\<forall>x\<in>set xs. x \<noteq> []"
  shows "\<exists>s' ls. train_pass fw (s, e) xs = Inr (s', foldl fl_add e (map2 fl_quot ls (map length xs)))
     \<and> length ls = length xs
     \<and> progress s' = progress s @ map (Pair Training) ls
     \<and> n_steps s' = n_steps s + length xs
     \<and> (\<forall>l\<in>set ls. \<exists>m t x. l = fw_loss fw m t x)"
  using assms
proof (induction xs arbitrary: s e)
  case Nil
  then show ?case by simp
next
  case (Cons x xs)
  let ?L = "fw_loss fw (model s) (training s) x"
  let ?s1 = "(optimizer_step (s\<lparr>grads := Some (fw_sync fw (fw_local_grad fw (model s) (training s) x))\<rparr>))
           \<lparr>progress := progress s @ [(Training, ?L)]\<rparr>"
  let ?e1 = "fl_add e (fl_quot ?L (length x))"
  have x: "x \<noteq> []" and xs: "\<forall>y\<in>set xs. y \<noteq> []" using Cons.prems by simp_all
  have tb: "train_batch fw (s, e) x = Inr (?s1, ?e1)" using x by (rule train_batch_nonempty)
  from Cons.IH [OF xs, of ?s1 ?e1]
  obtain s' ls where r: "train_pass fw (?s1, ?e1) xs = Inr (s', foldl fl_add ?e1 (map2 fl_quot ls (map length xs)))"
    "length ls = length xs" "progress s' = progress ?s1 @ map (Pair Training) ls"
    "n_steps s' = n_steps ?s1 + length xs" "\<forall>l\<in>set ls. \<exists>m t x. l = fw_loss fw m t x" by blast
  have "train_pass fw (s, e) (x # xs) = Inr (s', foldl fl_add e (map2 fl_quot (?L # ls) (map length (x # xs))))"
    using tb r(1) by simp
  moreover have "length (?L # ls) = length (x # xs)" using r(2) by simp
  moreover have "progress s' = progress s @ map (Pair Training) (?L # ls)" using r(3) by simp
  moreover have "n_steps s' = n_steps s + length (x # xs)"
    using r(4) by (simp add: n_steps_optimizer_step)
  moreover have "\<forall>l\<in>set (?L # ls). \<exists>m t x. l = fw_loss fw m t x" using r(5) by auto
  ultimately show ?case by blast
qed













lemma is_finite_fl_add: "is_finite (fl_add a b) \<Longrightarrow> is_finite a \<and> is_finite b"
  by (cases a; cases b) simp_all

lemma is_finite_fl_quot: "is_finite (fl_quot a n) = is_finite a"
  by (cases a) simp_all

lemma foldl_fl_add_nonfinite: "\<not> is_finite a \<Longrightarrow> \<not> is_finite (foldl fl_add a qs)"
  by (induction qs arbitrary: a) (auto dest: is_finite_fl_add)

lemma foldl_fl_add_poisoned:
  assumes "length ls = length ns" "\<exists>l\<in>set ls. \<not> is_finite l"
  shows "\<not> is_finite (foldl fl_add a (map2 fl_quot ls ns))"
  using assms
proof (induction ls ns arbitrary: a rule: list_induct2)
  case Nil
  then show ?case by simp
next
  case (Cons l ls n ns)
  show ?case
  proof (cases "is_finite l")
    case True
    then show ?thesis using Cons by simp
  next
    case False
    then have "\<not> is_finite (fl_add a (fl_quot l n))"
      using is_finite_fl_add is_finite_fl_quot by blast
    then show ?thesis by (simp add: foldl_fl_add_nonfinite)
  qed
qed

text \<open>
  Claim C8, as amended. The training loop has no check on the loss: over non-empty
  batches a pass always returns without an error and every batch gets its optimizer
  step, whatever the losses are; a loss that is not finite makes the accumulated train
  loss not finite.
\<close>

theorem nonfinite_loss_not_detected:
  assumes ne: "\<forall>x\<in>set xs. x \<noteq> []"
  shows "\<exists>s' ls e'. train_pass fw (s, e) xs = Inr (s', e')
     \<and> n_steps s' = n_steps s + length xs
     \<and> length ls = length xs
     \<and> progress s' = progress s @ map (Pair Training) ls
     \<and> ((\<exists>l\<in>set ls. \<not> is_finite l) \<longrightarrow> \<not> is_finite e')"
proof -
  from train_pass_general [OF ne, of fw s e]
  obtain s' ls where r: "train_pass fw (s, e) xs = Inr (s', foldl fl_add e (map2 fl_quot ls (map length xs)))"
    "length ls = length xs" "progress s' = progress s @ map (Pair Training) ls"
    "n_steps s' = n_steps s + length xs" by blast
  have "(\<exists>l\<in>set ls. \<not> is_finite l) \<longrightarrow> \<not> is_finite (foldl fl_add e (map2 fl_quot ls (map length xs)))"
    using foldl_fl_add_poisoned [of ls "map length xs" e] r(2) by simp
  then show ?thesis using r by blast
qed

theorem nonfinite_loss_not_detected_witness:
  "[10, 12 :: nat] \<noteq> [] \<and> [11 :: nat] \<noteq> []
   \<and> (\<exists>s' ls e'. train_pass nan_framework (toy_state, Fin 0) [[10, 12], [11]] = Inr (s', e')
        \<and> n_steps s' = n_steps toy_state + 2
        \<and> length ls = 2
        \<and> progress s' = progress toy_state @ map (Pair Training) ls
        \<and> ls = [NaN, NaN] \<and> \<not> is_finite e')"
proof -
  have ne: "\<forall>x\<in>set [[10, 12], [11 :: nat]]. x \<noteq> []" by simp
  have ev: "pass_summary (train_pass nan_framework (toy_state, Fin 0) [[10, 12], [11]])
       = Inr (2, [(Training, NaN), (Training, NaN)], NaN)"
    by (simp add: toy_eval)
  from nonfinite_loss_not_detected [OF ne, of nan_framework toy_state "Fin 0"]
  obtain s' ls e' where r: "train_pass nan_framework (toy_state, Fin 0) [[10, 12], [11]] = Inr (s', e')"
    "n_steps s' = n_steps toy_state + length [[10, 12], [11 :: nat]]"
    "length ls = length [[10, 12], [11 :: nat]]"
    "progress s' = progress toy_state @ map (Pair Training) ls"
    "(\<exists>l\<in>set ls. \<not> is_finite l) \<longrightarrow> \<not> is_finite e'"
    by blast
  from ev r(1) have p: "progress s' = [(Training, NaN), (Training, NaN)]"
    by (simp add: pass_summary_def)
  have "progress toy_state = []" by (simp add: toy_state_def)
  with p r(4) have "map (Pair Training) ls = map (Pair Training) [NaN, NaN]" by simp
  then have "map snd (map (Pair Training) ls) = map snd (map (Pair Training) [NaN, NaN])"
    by (rule arg_cong)
  then have ls: "ls = [NaN, NaN]" by (simp add: comp_def)
  with r(5) have "\<not> is_finite e'" by simp
  with r ls show ?thesis by auto
qed

text \<open>
  Claim C8 as stated fails: when the loss of the first batch is not a number, the pass
  raises no error, takes the optimizer step of that batch and of the next one, and
  returns a train loss that is not a number.
\<close>

theorem nonfinite_loss_counterexample:
  "pass_summary (train_pass nan_framework (toy_state, Fin 0) [[10, 12], [11]])
     = Inr (2, [(Training, NaN), (Training, NaN)], NaN)"
  by (simp add: toy_eval)

subsection \<open>The optimizer step\<close>

lemma named_tensors_map_tensors:
  "named_tensors (map_tensors f m) = map (\<lambda>(k, t). (k, f k t)) (named_tensors m)"
  by (induction m) simp_all


lemma fl_mul_neg: "c \<noteq> 0 \<Longrightarrow> fl_mul (Fin (- c)) g = fl_neg (fl_mul (Fin c) g)"
  by (cases g) auto

lemma sgd_param_plain:
  assumes "c \<noteq> 0"
  shows "sgd_param (SGD c) p g buf = map2 (\<lambda>a b. fl_sub a (fl_mul (Fin c) b)) p g"
proof -
  have "map2 fl_add p (map (fl_mul (Fin (- c))) g) = map2 (\<lambda>a b. fl_add a (fl_mul (Fin (- c)) b)) p g"
    by (simp add: zip_map2 case_prod_unfold)
  then show ?thesis
    using assms by (simp add: sgd_param_def SGD_def t_add_def t_scale_def fl_sub_def fl_mul_neg)
qed

lemma sgd_buffer_plain: "sgd_buffer (SGD c) p g buf = buf"
  by (simp add: sgd_buffer_def SGD_def)

lemma momentum_buffer_SGD: "momentum_buffer (SGD c) k = None"
  by (simp add: SGD_def)

lemma optimizer_step_plain:
  assumes opt: "optimizer s = SGD c" and c: "c \<noteq> 0" and g: "grads s = Some G"
  shows "model (optimizer_step s)
           = map_tensors (\<lambda>k p. map2 (\<lambda>a b. fl_sub a (fl_mul (Fin c) b)) p (G k)) (model s)"
    and "optimizer (optimizer_step s) = SGD c"
proof -
  show "model (optimizer_step s)
           = map_tensors (\<lambda>k p. map2 (\<lambda>a b. fl_sub a (fl_mul (Fin c) b)) p (G k)) (model s)"
    using opt g c by (simp add: optimizer_step_def Let_def sgd_param_plain)
  have "(\<lambda>k. case map_of (named_tensors (model s)) k of
               None \<Rightarrow> momentum_buffer (SGD c) k
             | Some t \<Rightarrow> sgd_buffer (SGD c) t (G k) (momentum_buffer (SGD c) k)) = (\<lambda>k. None)"
    by (rule ext) (simp add: sgd_buffer_plain momentum_buffer_SGD split: option.splits)
  then show "optimizer (optimizer_step s) = SGD c"
    using opt g by (simp add: optimizer_step_def Let_def) (simp add: SGD_def)
qed

text \<open>
  Claim C7. With the optimizer \<^verbatim>\<open>main\<close> builds, \<^verbatim>\<open>optim.SGD(lr=0.01)\<close>, one training
  batch replaces every parameter tensor \<open>p\<close> by \<open>p - 0.01 * g\<close> entry by entry, where
  \<open>g\<close> is the gradient the distributed wrapper leaves for it (the average over the
  workers); on finite values that is the real number \<open>p - 0.01 * g\<close>. The optimizer is
  left as it was built: the learning rate stays 0.01 and no momentum buffer appears.
  Nothing else in the batch touches the parameters (no clipping).
\<close>

theorem sgd_step_plain:
  assumes opt: "optimizer s = SGD (1 / 100)" and x: "x \<noteq> []"
  shows "\<exists>s' e'. train_batch fw (s, e) x = Inr (s', e')
     \<and> named_tensors (model s') =
         map (\<lambda>(k, p). (k, map2 (\<lambda>a b. fl_sub a (fl_mul (Fin (1 / 100)) b)) p
                              (fw_sync fw (fw_local_grad fw (model s) (training s) x) k)))
           (named_tensors (model s))
     \<and> optimizer s' = SGD (1 / 100)
     \<and> optimizer (initial_state fw m trl) = SGD (1 / 100)
     \<and> (\<forall>a b. fl_sub (Fin a) (fl_mul (Fin (1 / 100)) (Fin b)) = Fin (a - (1 / 100) * b))"
proof -
  let ?G = "fw_sync fw (fw_local_grad fw (model s) (training s) x)"
  let ?s2 = "s\<lparr>grads := Some ?G\<rparr>"
  have o2: "optimizer ?s2 = SGD (1 / 100)" using opt by simp
  have g2: "grads ?s2 = Some ?G" by simp
  have c: "(1 / 100 :: real) \<noteq> 0" by simp
  note st = optimizer_step_plain [OF o2 c g2]
  show ?thesis
    using train_batch_nonempty [OF x, of fw s e] st
    by (simp add: named_tensors_map_tensors initial_state_def fl_sub_def)
qed

theorem sgd_step_plain_witness:
  "optimizer toy_state = SGD (1 / 100) \<and> [10, 12 :: nat] \<noteq> []
   \<and> pass_tensors (train_batch toy_framework (toy_state, Fin 0) [10, 12])
       = Inr [(''0.weight'', [Fin (49 / 50)])]
   \<and> (\<exists>s' e'. train_batch toy_framework (toy_state, Fin 0) [10, 12] = Inr (s', e')
        \<and> optimizer s' = SGD (1 / 100))"
proof -
  have o: "optimizer toy_state = SGD (1 / 100)" by (simp add: toy_state_def)
  have x: "[10, 12 :: nat] \<noteq> []" by simp
  have ev: "pass_tensors (train_batch toy_framework (toy_state, Fin 0) [10, 12])
       = Inr [(''0.weight'', [Fin (49 / 50)])]"
    by (simp add: toy_eval)
  from sgd_step_plain [OF o x, of toy_framework "Fin 0"]
  obtain s' e' where "train_batch toy_framework (toy_state, Fin 0) [10, 12] = Inr (s', e')"
    "optimizer s' = SGD (1 / 100)" by blast
  with o x ev show ?thesis by blast
qed


subsection \<open>The value main returns and the checkpoint\<close>













subsection \<open>The replicas of a group\<close>

lemma sequence_results_Inr: "sequence_results (map Inr xs) = Inr xs"
  by (induction xs) simp_all

lemma optimizer_step_cong:
  assumes "model s = model t" "optimizer s = optimizer t" "grads s = grads t"
  shows "model (optimizer_step s) = model (optimizer_step t)"
    and "optimizer (optimizer_step s) = optimizer (optimizer_step t)"
  using assms by (simp_all add: optimizer_step_def Let_def split: option.splits)

lemma group_train_batch_agree:
  assumes ag: "agree accs" and len: "length xs = length accs" and ne: "\<forall>x\<in>set xs. x \<noteq> []"
  shows "\<exists>accs'. group_train_batch fw allreduce accs xs = Some (Inr accs')
     \<and> length accs' = length accs \<and> agree accs'
     \<and> (\<forall>a\<in>set accs'. \<exists>b\<in>set accs. n_steps (fst a) = n_steps (fst b) + 1)"
proof -
  define avg where "avg = allreduce (map2 (\<lambda>acc x. fw_local_grad fw (model (fst acc)) (training (fst acc)) x) accs xs)"
  define fw' where "fw' = fw\<lparr>fw_sync := (\<lambda>g. avg)\<rparr>"
  define nxt where "nxt = (\<lambda>(acc :: train_state \<times> pyfloat) (x :: 'a list).
      ((optimizer_step ((fst acc)\<lparr>grads := Some avg\<rparr>))
           \<lparr>progress := progress (fst acc) @ [(Training, fw_loss fw (model (fst acc)) (training (fst acc)) x)]\<rparr>,
         fl_add (snd acc) (fl_quot (fw_loss fw (model (fst acc)) (training (fst acc)) x) (length x))))"
  have tb: "train_batch fw' acc x = Inr (nxt acc x)" if "x \<noteq> []" for acc x
    using train_batch_nonempty [OF that, of fw' "fst acc" "snd acc"]
    by (simp add: fw'_def nxt_def)
  have "(case p of (acc, x) \<Rightarrow> train_batch fw' acc x) = Inr (case p of (acc, x) \<Rightarrow> nxt acc x)"
    if "p \<in> set (zip accs xs)" for p
  proof -
    obtain acc x where p: "p = (acc, x)" by (cases p)
    then have "x \<in> set xs" using that by (auto dest: set_zip_rightD)
    then have "x \<noteq> []" using ne by simp
    then have "train_batch fw' acc x = Inr (nxt acc x)" by (rule tb)
    then show ?thesis unfolding p by simp
  qed
  then have eq: "map2 (train_batch fw') accs xs = map Inr (map2 nxt accs xs)"
    by (simp add: map_eq_conv)
  have "group_train_batch fw allreduce accs xs = Some (sequence_results (map2 (train_batch fw') accs xs))"
    using len by (simp add: group_train_batch_def Let_def avg_def fw'_def)
  also have "\<dots> = Some (Inr (map2 nxt accs xs))"
    by (simp only: eq sequence_results_Inr)
  finally have res: "group_train_batch fw allreduce accs xs = Some (Inr (map2 nxt accs xs))" .
  have l: "length (map2 nxt accs xs) = length accs" using len by simp
  have mem: "\<exists>a\<in>set accs. \<exists>x. a' = nxt a x" if "a' \<in> set (map2 nxt accs xs)" for a'
    using that by (auto dest: set_zip_leftD)
  have st: "model (fst (nxt a x)) = model (optimizer_step ((fst a)\<lparr>grads := Some avg\<rparr>))"
    "optimizer (fst (nxt a x)) = optimizer (optimizer_step ((fst a)\<lparr>grads := Some avg\<rparr>))"
    "n_steps (fst (nxt a x)) = n_steps (fst a) + 1" for a x
    by (simp_all add: nxt_def n_steps_optimizer_step)
  have ag': "agree (map2 nxt accs xs)"
    unfolding agree_def
  proof (intro ballI)
    fix a' b' assume "a' \<in> set (map2 nxt accs xs)" "b' \<in> set (map2 nxt accs xs)"
    then obtain a x b y where a: "a \<in> set accs" "a' = nxt a x" and b: "b \<in> set accs" "b' = nxt b y"
      using mem by blast
    have e: "model (fst a) = model (fst b)" "optimizer (fst a) = optimizer (fst b)"
      "n_steps (fst a) = n_steps (fst b)"
      using ag a(1) b(1) unfolding agree_def by blast+
    have c: "model ((fst a)\<lparr>grads := Some avg\<rparr>) = model ((fst b)\<lparr>grads := Some avg\<rparr>)"
      "optimizer ((fst a)\<lparr>grads := Some avg\<rparr>) = optimizer ((fst b)\<lparr>grads := Some avg\<rparr>)"
      "grads ((fst a)\<lparr>grads := Some avg\<rparr>) = grads ((fst b)\<lparr>grads := Some avg\<rparr>)"
      using e by simp_all
    have m: "model (fst a') = model (fst b')"
      unfolding a(2) b(2) st using c by (rule optimizer_step_cong(1))
    have o: "optimizer (fst a') = optimizer (fst b')"
      unfolding a(2) b(2) st using c by (rule optimizer_step_cong(2))
    have n: "n_steps (fst a') = n_steps (fst b')"
      unfolding a(2) b(2) st using e(3) by simp
    from m o n
    show "model (fst a') = model (fst b') \<and> optimizer (fst a') = optimizer (fst b')
      \<and> n_steps (fst a') = n_steps (fst b')"
      by (intro conjI)
  qed
  have ns: "\<forall>a'\<in>set (map2 nxt accs xs). \<exists>b\<in>set accs. n_steps (fst a') = n_steps (fst b) + 1"
  proof
    fix a' assume "a' \<in> set (map2 nxt accs xs)"
    then obtain a x where a: "a \<in> set accs" "a' = nxt a x" using mem by blast
    have "n_steps (fst a') = n_steps (fst a) + 1" unfolding a(2) by (rule st(3))
    then show "\<exists>b\<in>set accs. n_steps (fst a') = n_steps (fst b) + 1" using a(1) by blast
  qed
  show ?thesis using res l ag' ns by blast
qed

lemma group_train_pass_agree:
  assumes "agree accs" and "\<forall>xs\<in>set steps. length xs = length accs \<and> (\<forall>x\<in>set xs. x \<noteq> [])"
  shows "\<exists>accs'. group_train_pass fw allreduce accs steps = Some (Inr accs')
     \<and> length accs' = length accs \<and> agree accs'
     \<and> (\<forall>a\<in>set accs'. \<exists>b\<in>set accs. n_steps (fst a) = n_steps (fst b) + length steps)"
  using assms
proof (induction steps arbitrary: accs)
  case Nil
  then show ?case by auto
next
  case (Cons xs steps)
  have len: "length xs = length accs" and ne: "\<forall>x\<in>set xs. x \<noteq> []"
    using Cons.prems(2) by simp_all
  from group_train_batch_agree [OF Cons.prems(1) len ne, of fw allreduce]
  obtain accs1 where a1: "group_train_batch fw allreduce accs xs = Some (Inr accs1)"
    "length accs1 = length accs" "agree accs1"
    "\<forall>a\<in>set accs1. \<exists>b\<in>set accs. n_steps (fst a) = n_steps (fst b) + 1" by blast
  have st: "\<forall>ys\<in>set steps. length ys = length accs1 \<and> (\<forall>x\<in>set ys. x \<noteq> [])"
    using Cons.prems(2) a1(2) by simp
  from Cons.IH [OF a1(3) st]
  obtain accs' where a2: "group_train_pass fw allreduce accs1 steps = Some (Inr accs')"
    "length accs' = length accs1" "agree accs'"
    "\<forall>a\<in>set accs'. \<exists>b\<in>set accs1. n_steps (fst a) = n_steps (fst b) + length steps" by blast
  have r: "group_train_pass fw allreduce accs (xs # steps) = Some (Inr accs')"
    using a1(1) a2(1) by simp
  have n: "\<forall>a\<in>set accs'. \<exists>b\<in>set accs. n_steps (fst a) = n_steps (fst b) + length (xs # steps)"
  proof
    fix a assume "a \<in> set accs'"
    then obtain b where b: "b \<in> set accs1" "n_steps (fst a) = n_steps (fst b) + length steps"
      using a2(4) by blast
    then obtain c where c: "c \<in> set accs" "n_steps (fst b) = n_steps (fst c) + 1"
      using a1(4) by blast
    have "n_steps (fst a) = n_steps (fst c) + length (xs # steps)" using b(2) c(2) by simp
    then show "\<exists>b\<in>set accs. n_steps (fst a) = n_steps (fst b) + length (xs # steps)"
      using c(1) by blast
  qed
  show ?case using r a2(2) a1(2) a2(3) n by auto
qed

lemma initial_state_create_model:
  "model (initial_state fw (create_model init) trl)
     = DistributedDataParallel
         (Sequential architecture (map (\<lambda>k. (k, fw_rank0_init fw k)) (param_names architecture)))"
  by (simp add: initial_state_def create_model_def comp_def)

lemma group_initial_agree:
  "agree (map (\<lambda>s. (s, Fin 0)) (group_initial fw (map create_model inits) loaders))"
proof -
  have "model s = DistributedDataParallel
         (Sequential architecture
            (map (\<lambda>k. (k, rank0_values (map create_model inits) k)) (param_names architecture)))
      \<and> optimizer s = SGD (1 / 100) \<and> n_steps s = 0"
    if "s \<in> set (group_initial fw (map create_model inits) loaders)" for s
  proof -
    from that obtain init trl where
      "s = initial_state (fw\<lparr>fw_rank0_init := rank0_values (map create_model inits)\<rparr>) (create_model init) trl"
      by (auto simp: group_initial_def dest!: set_zip_leftD)
    then show ?thesis
      by (simp add: initial_state_create_model) (simp add: initial_state_def)
  qed
  then show ?thesis unfolding agree_def by auto
qed

lemma length_group_initial:
  "length loaders = length inits \<Longrightarrow>
   length (group_initial fw (map create_model inits) loaders) = length inits"
  by (simp add: group_initial_def)

lemma n_steps_group_initial:
  "s \<in> set (group_initial fw ms loaders) \<Longrightarrow> n_steps s = 0"
  by (auto simp: group_initial_def initial_state_def dest!: set_zip_leftD)

text \<open>
  Claim C9. A group of workers is started as the script starts it (each worker builds its
  own model; the wrapper's constructor broadcasts rank 0's values) and run in lock step
  through any number of training batches, each worker on its own non-empty batch. The
  run returns, every worker has taken one optimizer step per batch, and all workers hold
  the same model, hence the same parameter values, at that batch boundary.
\<close>

theorem replicas_identical_after_every_step:
  assumes len: "length loaders = length inits"
    and steps: "\<forall>xs\<in>set steps. length xs = length inits \<and> (\<forall>x\<in>set xs. x \<noteq> [])"
  shows "\<exists>accs. group_train_pass fw allreduce
            (map (\<lambda>s. (s, Fin 0)) (group_initial fw (map create_model inits) loaders)) steps
          = Some (Inr accs)
     \<and> length accs = length inits
     \<and> (\<forall>a\<in>set accs. \<forall>b\<in>set accs. model (fst a) = model (fst b))
     \<and> (\<forall>a\<in>set accs. n_steps (fst a) = length steps)"
proof -
  let ?accs0 = "map (\<lambda>s. (s, Fin 0)) (group_initial fw (map create_model inits) loaders)"
  have l0: "length ?accs0 = length inits" using len by (simp add: length_group_initial)
  have st: "\<forall>xs\<in>set steps. length xs = length ?accs0 \<and> (\<forall>x\<in>set xs. x \<noteq> [])"
    using steps l0 by simp
  from group_train_pass_agree [OF group_initial_agree st, of fw allreduce]
  obtain accs where r: "group_train_pass fw allreduce ?accs0 steps = Some (Inr accs)"
    "length accs = length ?accs0" "agree accs"
    "\<forall>a\<in>set accs. \<exists>b\<in>set ?accs0. n_steps (fst a) = n_steps (fst b) + length steps" by blast
  have m: "\<forall>a\<in>set accs. \<forall>b\<in>set accs. model (fst a) = model (fst b)"
    using r(3) unfolding agree_def by blast
  have n: "\<forall>a\<in>set accs. n_steps (fst a) = length steps"
  proof
    fix a assume "a \<in> set accs"
    then obtain b where b: "b \<in> set ?accs0" "n_steps (fst a) = n_steps (fst b) + length steps"
      using r(4) by blast
    from b(1) have "fst b \<in> set (group_initial fw (map create_model inits) loaders)" by auto
    then have "n_steps (fst b) = 0" by (rule n_steps_group_initial)
    then show "n_steps (fst a) = length steps" using b(2) by simp
  qed
  have la: "length accs = length inits" using r(2) l0 by (simp only:)
  from r(1) la m n show ?thesis by blast
qed

theorem replicas_identical_after_every_step_witness:
  "length [toy_train_loader, toy_train_loader] = length [(\<lambda>k. [Fin 1]), (\<lambda>k. [Fin 5])]
   \<and> length [[10], [11 :: nat]] = 2 \<and> [10 :: nat] \<noteq> [] \<and> [11 :: nat] \<noteq> []
   \<and> (\<exists>accs. group_train_pass toy_framework hd
            (map (\<lambda>s. (s, Fin 0))
               (group_initial toy_framework (map create_model [(\<lambda>k. [Fin 1]), (\<lambda>k. [Fin 5])])
                  [toy_train_loader, toy_train_loader]))
            [[[10], [11]]]
          = Some (Inr accs)
        \<and> length accs = 2
        \<and> model (fst (accs ! 0)) = model (fst (accs ! 1))
        \<and> n_steps (fst (accs ! 0)) = 1 \<and> n_steps (fst (accs ! 1)) = 1)"
proof -
  have h1: "length [toy_train_loader, toy_train_loader] = length [(\<lambda>k. [Fin 1]), (\<lambda>k::string. [Fin 5])]"
    by simp
  have h2: "\<forall>xs\<in>set [[[10], [11 :: nat]]].
      length xs = length [(\<lambda>k. [Fin 1]), (\<lambda>k::string. [Fin 5])] \<and> (\<forall>x\<in>set xs. x \<noteq> [])"
    by simp
  from replicas_identical_after_every_step [OF h1 h2, of toy_framework hd]
  obtain accs where r: "group_train_pass toy_framework hd
            (map (\<lambda>s. (s, Fin 0))
               (group_initial toy_framework (map create_model [(\<lambda>k. [Fin 1]), (\<lambda>k. [Fin 5])])
                  [toy_train_loader, toy_train_loader]))
            [[[10], [11]]]
          = Some (Inr accs)"
    "length accs = length [(\<lambda>k. [Fin 1]), (\<lambda>k::string. [Fin 5])]"
    "\<forall>a\<in>set accs. \<forall>b\<in>set accs. model (fst a) = model (fst b)"
    "\<forall>a\<in>set accs. n_steps (fst a) = length [[[10], [11 :: nat]]]"
    by blast
  have l: "length accs = 2" using r(2) by simp
  then have i: "accs ! 0 \<in> set accs" "accs ! 1 \<in> set accs" by simp_all
  have m: "model (fst (accs ! 0)) = model (fst (accs ! 1))" using r(3) i by blast
  have n: "n_steps (fst (accs ! 0)) = 1" "n_steps (fst (accs ! 1)) = 1" using r(4) i by simp_all
  have c: "\<exists>accs. group_train_pass toy_framework hd
            (map (\<lambda>s. (s, Fin 0))
               (group_initial toy_framework (map create_model [(\<lambda>k. [Fin 1]), (\<lambda>k. [Fin 5])])
                  [toy_train_loader, toy_train_loader]))
            [[[10], [11]]]
          = Some (Inr accs)
        \<and> length accs = 2
        \<and> model (fst (accs ! 0)) = model (fst (accs ! 1))
        \<and> n_steps (fst (accs ! 0)) = 1 \<and> n_steps (fst (accs ! 1)) = 1"
    using r(1) l m n by blast
  have h3: "length [[10], [11 :: nat]] = 2 \<and> [10 :: nat] \<noteq> [] \<and> [11 :: nat] \<noteq> []" by simp
  from h1 h3 c show ?thesis by (intro conjI) simp_all
qed

end
